theory Spec2Isabelle
  imports Main "HOL-Library.Sublist" "HOL-Library.AList" "HOL-Library.Char_ord"
    "HOL-Library.List_Lexorder"
begin

section \<open>The FHV ingest pipeline of \<^verbatim>\<open>quick_ingest_fhv.py\<close>\<close>

subsection \<open>Period enumeration\<close>

text \<open>
  \<^verbatim>\<open>month_range\<close> is a generator driven by a \<^verbatim>\<open>while\<close> loop over Python's unbounded
  integers. The loop need not end (a month counter that starts above 12 never meets 13 again),
  so the list of yielded pairs is an option: \<open>None\<close> is the loop that never stops.
\<close>

partial_function (option) month_range ::
  "int \<Rightarrow> int \<Rightarrow> int \<Rightarrow> int \<Rightarrow> (int \<times> int) list option" where
  "month_range y m end_year end_month =
     (if y < end_year \<or> (y = end_year \<and> m \<le> end_month)
      then Option.bind
             (month_range (if m + 1 = 13 then y + 1 else y) (if m + 1 = 13 then 1 else m + 1)
                end_year end_month)
             (\<lambda>rest. Some ((y, m) # rest))
      else Some [])"

text \<open>The order on periods: year first, then month.\<close>

fun period_lt :: "int \<times> int \<Rightarrow> int \<times> int \<Rightarrow> bool" where
  "period_lt (y1, m1) (y2, m2) = (y1 < y2 \<or> (y1 = y2 \<and> m1 < m2))"

definition period_le :: "int \<times> int \<Rightarrow> int \<times> int \<Rightarrow> bool" where
  "period_le p q = (p = q \<or> period_lt p q)"

text \<open>A period is a calendar month: its month lies between 1 and 12.\<close>

definition calendar :: "int \<times> int \<Rightarrow> bool" where
  "calendar p = (1 \<le> snd p \<and> snd p \<le> 12)"

text \<open>
  The enumeration as the specification words it: the periods from start to end inclusive,
  counted in months since year 0.
\<close>

definition month_index :: "int \<times> int \<Rightarrow> int" where
  "month_index p = 12 * fst p + (snd p - 1)"

definition period_of_index :: "int \<Rightarrow> int \<times> int" where
  "period_of_index k = (k div 12, k mod 12 + 1)"

definition periods_between :: "int \<times> int \<Rightarrow> int \<times> int \<Rightarrow> (int \<times> int) list" where
  "periods_between a b = map period_of_index [month_index a..month_index b]"

subsection \<open>File names\<close>

text \<open>Python's \<^verbatim>\<open>str\<close> of an integer and the format \<^verbatim>\<open>{month:02d}\<close>.\<close>

fun digits :: "nat \<Rightarrow> string" where
  "digits n =
     (if n < 10 then [''0123456789'' ! n]
      else digits (n div 10) @ [''0123456789'' ! (n mod 10)])"

definition str_int :: "int \<Rightarrow> string" where
  "str_int i = (if i < 0 then ''-'' @ digits (nat (- i)) else digits (nat i))"

definition format_02d :: "int \<Rightarrow> string" where
  "format_02d i = (let s = str_int i in if length s < 2 then ''0'' @ s else s)"

definition BASE_URL :: string where
  "BASE_URL = ''https://github.com/DataTalksClub/nyc-tlc-data/releases/download''"

definition RELEASE :: string where
  "RELEASE = ''fhv''"

definition data_dir :: string where
  "data_dir = ''data/fhv''"

definition stem :: "int \<times> int \<Rightarrow> string" where
  "stem p = ''fhv_tripdata_'' @ str_int (fst p) @ ''-'' @ format_02d (snd p)"

definition csv_gz_filename :: "int \<times> int \<Rightarrow> string" where
  "csv_gz_filename p = stem p @ ''.csv.gz''"

definition parquet_filename :: "int \<times> int \<Rightarrow> string" where
  "parquet_filename p = stem p @ ''.parquet''"

definition csv_gz_filepath :: "int \<times> int \<Rightarrow> string" where
  "csv_gz_filepath p = data_dir @ ''/'' @ csv_gz_filename p"

definition parquet_filepath :: "int \<times> int \<Rightarrow> string" where
  "parquet_filepath p = data_dir @ ''/'' @ parquet_filename p"

definition url_of :: "int \<times> int \<Rightarrow> string" where
  "url_of p = BASE_URL @ ''/'' @ RELEASE @ ''/'' @ csv_gz_filename p"

subsection \<open>The file system and the outside world\<close>

text \<open>
  Only the existence and the size of a file are inspected by the program, so the file system
  is an association list from paths to sizes in bytes. The record of calls is a ghost field
  that lets a theorem speak about which services were invoked.
\<close>

type_synonym filesystem = "(string \<times> nat) list"

datatype event = Fetch string string | Convert string string | Unlink string

record world =
  files :: filesystem
  calls :: "event list"

definition path_exists :: "filesystem \<Rightarrow> string \<Rightarrow> bool" where
  "path_exists fs p = (map_of fs p \<noteq> None)"

text \<open>\<^verbatim>\<open>p.exists() and p.stat().st_size > 1024\<close>\<close>

definition valid :: "filesystem \<Rightarrow> string \<Rightarrow> bool" where
  "valid fs p = (case map_of fs p of None \<Rightarrow> False | Some n \<Rightarrow> 1024 < n)"

text \<open>\<^verbatim>\<open>p.exists() and p.stat().st_size <= 1024\<close>\<close>

definition broken :: "filesystem \<Rightarrow> string \<Rightarrow> bool" where
  "broken fs p = (case map_of fs p of None \<Rightarrow> False | Some n \<Rightarrow> n \<le> 1024)"

text \<open>
  What \<^verbatim>\<open>requests.get\<close> and the response do for a URL: the call itself raises, or there is a
  response with a status code, the message \<^verbatim>\<open>raise_for_status\<close> would raise with, the sizes of
  the chunks \<^verbatim>\<open>iter_content\<close> delivers, and the message of the error that interrupts the stream
  after them, if one does.
\<close>

datatype http_result =
  GetRaised string
| Response nat string "nat list" "string option"

text \<open>
  What DuckDB's \<^verbatim>\<open>COPY ... TO\<close> does: it completes, having written that many bytes, or it
  raises with a message, having left a partial file of some size or none.
\<close>

datatype copy_result =
  Copied nat
| CopyRaised "nat option" string

record env =
  http_get :: "string \<Rightarrow> http_result"
  duckdb_copy :: "filesystem \<Rightarrow> string \<Rightarrow> string \<Rightarrow> copy_result"
  unlink_permitted :: "filesystem \<Rightarrow> string \<Rightarrow> bool"

definition record_call :: "event \<Rightarrow> world \<Rightarrow> world" where
  "record_call e w = w\<lparr>calls := calls w @ [e]\<rparr>"

text \<open>
  \<^verbatim>\<open>Path.unlink\<close>: removes the file, or raises (the file is missing, or the operating system
  refuses). The result says whether it returned normally.
\<close>

definition unlink :: "env \<Rightarrow> string \<Rightarrow> world \<Rightarrow> bool \<times> world" where
  "unlink E p w =
     (let w1 = record_call (Unlink p) w in
      if path_exists (files w1) p \<and> unlink_permitted E (files w1) p
      then (True, w1\<lparr>files := AList.delete p (files w1)\<rparr>)
      else (False, w1))"

text \<open>
  The cleanup idiom of the source:
  \<^verbatim>\<open>if p.exists(): try: p.unlink() except Exception: pass\<close>
\<close>

definition remove_if_exists :: "env \<Rightarrow> string \<Rightarrow> world \<Rightarrow> world" where
  "remove_if_exists E p w = (if path_exists (files w) p then snd (unlink E p w) else w)"

text \<open>\<^verbatim>\<open>raise_for_status\<close> raises for the 4xx and 5xx status codes.\<close>

definition error_status :: "nat \<Rightarrow> bool" where
  "error_status st = (400 \<le> st \<and> st < 600)"


definition download_file :: "env \<Rightarrow> string \<Rightarrow> string \<Rightarrow> world \<Rightarrow> (string + unit) \<times> world" where
  "download_file E url dest w =
     (let w1 = record_call (Fetch url dest) w in
      case http_get E url of
        GetRaised msg \<Rightarrow> (Inl msg, w1)
      | Response st reason chunks interrupt \<Rightarrow>
          if error_status st then (Inl reason, w1)
          else
            let w2 = w1\<lparr>files := AList.update dest (sum_list chunks) (files w1)\<rparr> in
            (case interrupt of None \<Rightarrow> (Inr (), w2) | Some msg \<Rightarrow> (Inl msg, w2)))"

definition convert_csv_gz_to_parquet ::
  "env \<Rightarrow> string \<Rightarrow> string \<Rightarrow> world \<Rightarrow> (string + unit) \<times> world" where
  "convert_csv_gz_to_parquet E csv_gz_path parquet_path w =
     (let w1 = record_call (Convert csv_gz_path parquet_path) w in
      case duckdb_copy E (files w1) csv_gz_path parquet_path of
        Copied n \<Rightarrow> (Inr (), w1\<lparr>files := AList.update parquet_path n (files w1)\<rparr>)
      | CopyRaised partial msg \<Rightarrow>
          let w2 = (case partial of
                      None \<Rightarrow> w1
                    | Some n \<Rightarrow> w1\<lparr>files := AList.update parquet_path n (files w1)\<rparr>)
          in (Inl msg, remove_if_exists E parquet_path w2))"

subsection \<open>The batch\<close>

record batch =
  successes :: "string list"
  failures :: "(string \<times> string) list"
  world :: world

text \<open>The body of the \<^verbatim>\<open>for\<close> loop, for one period.\<close>

definition process_unit :: "env \<Rightarrow> int \<times> int \<Rightarrow> batch \<Rightarrow> batch" where
  "process_unit E p b =
     (let csv = csv_gz_filepath p; pq = parquet_filepath p in
      if valid (files (world b)) pq
      then b\<lparr>successes := successes b @ [pq]\<rparr>
      else
        let w1 = (if broken (files (world b)) pq then snd (unlink E pq (world b)) else world b)
        in case download_file E (url_of p) csv w1 of
             (Inl e, w2) \<Rightarrow>
               b\<lparr>failures := failures b @ [(csv_gz_filename p, ''download failed: '' @ e)],
                 world := remove_if_exists E csv w2\<rparr>
           | (Inr u, w2) \<Rightarrow>
               (case convert_csv_gz_to_parquet E csv pq w2 of
                  (Inr u', w3) \<Rightarrow>
                    b\<lparr>successes := successes b @ [pq], world := remove_if_exists E csv w3\<rparr>
                | (Inl e, w3) \<Rightarrow>
                    b\<lparr>failures := failures b @ [(csv_gz_filename p, ''convert failed: '' @ e)],
                      world := remove_if_exists E csv w3\<rparr>))"

definition run_units :: "env \<Rightarrow> (int \<times> int) list \<Rightarrow> batch \<Rightarrow> batch" where
  "run_units E ps b = foldl (\<lambda>acc p. process_unit E p acc) b ps"

definition download_and_convert_fhv_files ::
  "env \<Rightarrow> int \<Rightarrow> int \<Rightarrow> int \<Rightarrow> int \<Rightarrow> world \<Rightarrow> batch option" where
  "download_and_convert_fhv_files E start_year start_month end_year end_month w =
     map_option (\<lambda>ps. run_units E ps \<lparr>successes = [], failures = [], world = w\<rparr>)
       (month_range start_year start_month end_year end_month)"

subsection \<open>The loader\<close>

text \<open>
  \<^verbatim>\<open>fhv_dir.glob("*.parquet")\<close>: the entries directly inside \<^verbatim>\<open>data/fhv\<close> whose name ends in
  \<^verbatim>\<open>.parquet\<close>. A directory has one entry per name.
\<close>

definition is_parquet_in_dir :: "string \<Rightarrow> bool" where
  "is_parquet_in_dir p =
     (let d = data_dir @ ''/''; name = drop (length d) p in
      take (length d) p = d \<and> CHR ''/'' \<notin> set name \<and> suffix ''.parquet'' name)"

definition glob_parquet :: "filesystem \<Rightarrow> string list" where
  "glob_parquet fs = remdups (filter is_parquet_in_dir (map fst fs))"

text \<open>
  A table has named columns and rows of cells, a cell being a value or NULL (\<open>None\<close>).
\<close>

record 'v table =
  columns :: "string list"
  rows :: "'v option list list"

text \<open>
  Modelled from the spec: DuckDB's \<^verbatim>\<open>read_parquet([...], union_by_name=true)\<close> is a library
  function, not code of the repository. The specification describes it as the union, by
  column name, of the rows of the listed artifacts, where a column that an artifact lacks
  yields NULL for that artifact's rows. The result's columns are the columns of the
  artifacts in the order of their first appearance; the rows keep the order of the list.
\<close>

fun add_new :: "string list \<Rightarrow> string list \<Rightarrow> string list" where
  "add_new acc [] = acc"
| "add_new acc (c # cs) = add_new (if c \<in> set acc then acc else acc @ [c]) cs"

definition all_columns :: "'v table list \<Rightarrow> string list" where
  "all_columns ts = foldl add_new [] (map columns ts)"

definition pad_row :: "string list \<Rightarrow> string list \<Rightarrow> 'v option list \<Rightarrow> 'v option list" where
  "pad_row allc cs r = map (\<lambda>c. case map_of (zip cs r) c of None \<Rightarrow> None | Some v \<Rightarrow> v) allc"

definition union_by_name :: "'v table list \<Rightarrow> 'v table" where
  "union_by_name ts =
     \<lparr>columns = all_columns ts,
      rows = concat (map (\<lambda>t. map (pad_row (all_columns ts) (columns t)) (rows t)) ts)\<rparr>"

text \<open>
  The database file at \<^verbatim>\<open>db_path\<close>: its schemas and its tables by qualified name.
\<close>

record 'v database =
  schemas :: "string set"
  tables :: "string \<Rightarrow> 'v table option"

text \<open>
  \<^verbatim>\<open>load_parquets_into_duckdb\<close>. The parameter \<open>read\<close> is what DuckDB decodes from the parquet
  file at a path. The result is the raised \<^verbatim>\<open>RuntimeError\<close>'s message or a normal return,
  together with the database afterwards. The size filter reads \<^verbatim>\<open>st_size\<close> of paths the glob
  has just listed, so it is the test \<open>valid\<close>.
\<close>

definition good_files :: "filesystem \<Rightarrow> string list" where
  "good_files fs = filter (valid fs) (sort (glob_parquet fs))"

definition load_parquets_into_duckdb ::
  "(string \<Rightarrow> 'v table) \<Rightarrow> filesystem \<Rightarrow> 'v database \<Rightarrow> (string + unit) \<times> 'v database" where
  "load_parquets_into_duckdb read fs db =
     (if good_files fs = []
      then (Inl ''No valid parquet files found to load. Conversion likely failed for all months.'',
            db)
      else (Inr (),
            db\<lparr>schemas := insert ''prod'' (schemas db),
               tables := (tables db)(''prod.fhv_tripdata'' \<mapsto>
                           union_by_name (map read (good_files fs)))\<rparr>))"

subsection \<open>Concrete environments and worlds\<close>

definition E_tiny :: env where
  "E_tiny = \<lparr>http_get = (\<lambda>u. Response 200 ''OK'' [2000] None),
             duckdb_copy = (\<lambda>fs c q. Copied 500),
             unlink_permitted = (\<lambda>fs q. True)\<rparr>"

definition E_stuck :: env where
  "E_stuck = \<lparr>http_get = (\<lambda>u. Response 200 ''OK'' [2000] None),
              duckdb_copy = (\<lambda>fs c q. CopyRaised (Some 100) ''IO Error''),
              unlink_permitted = (\<lambda>fs q. False)\<rparr>"

definition E_404 :: env where
  "E_404 = \<lparr>http_get = (\<lambda>u. Response 404 ''404 Client Error'' [] None),
            duckdb_copy = (\<lambda>fs c q. Copied 5000),
            unlink_permitted = (\<lambda>fs q. True)\<rparr>"

definition w_empty :: world where
  "w_empty = \<lparr>files = [], calls = []\<rparr>"

definition w_leftover :: world where
  "w_leftover = \<lparr>files = [(csv_gz_filepath (2019, 1), 10), (parquet_filepath (2019, 1), 2000)],
                 calls = []\<rparr>"

definition w_broken :: world where
  "w_broken = \<lparr>files = [(parquet_filepath (2019, 1), 500)], calls = []\<rparr>"

definition E_ok :: env where
  "E_ok = \<lparr>http_get = (\<lambda>u. Response 200 ''OK'' [2000] None),
           duckdb_copy = (\<lambda>fs c q. Copied 5000),
           unlink_permitted = (\<lambda>fs q. True)\<rparr>"

definition E_fail :: env where
  "E_fail = \<lparr>http_get = (\<lambda>u. Response 200 ''OK'' [2000] None),
             duckdb_copy = (\<lambda>fs c q. CopyRaised (Some 100) ''IO Error''),
             unlink_permitted = (\<lambda>fs q. True)\<rparr>"


definition E_locked :: env where
  "E_locked = \<lparr>http_get = (\<lambda>u. Response 404 ''404 Client Error'' [] None),
               duckdb_copy = (\<lambda>fs c q. Copied 5000),
               unlink_permitted = (\<lambda>fs q. False)\<rparr>"

definition w_jan :: world where
  "w_jan = \<lparr>files = [(parquet_filepath (2019, 1), 2000)], calls = []\<rparr>"

definition fs_two :: filesystem where
  "fs_two = [(''data/fhv/y.parquet'', 3000), (''data/fhv/x.parquet'', 2000),
             (''data/fhv/t.parquet'', 10), (''data/fhv/z.csv.gz'', 9000)]"

definition read_two :: "string \<Rightarrow> int table" where
  "read_two p =
     (if p = ''data/fhv/x.parquet''
      then \<lparr>columns = [''a'', ''b''], rows = [ [Some 1, Some 2]]\<rparr>
      else \<lparr>columns = [''a'', ''c''], rows = [ [Some 3, Some 4]]\<rparr>)"

definition db_empty :: "int database" where
  "db_empty = \<lparr>schemas = {}, tables = (\<lambda>n. None)\<rparr>"

section \<open>Properties\<close>

subsection \<open>Period enumeration\<close>

lemma month_range_stop:
  "\<not> (y < ey \<or> (y = ey \<and> m \<le> em)) \<Longrightarrow> month_range y m ey em = Some []"
  by (subst month_range.simps) (simp only: if_False)

lemma month_range_step:
  "y < ey \<or> (y = ey \<and> m \<le> em) \<Longrightarrow>
   month_range y m ey em =
     Option.bind (month_range (if m + 1 = 13 then y + 1 else y) (if m + 1 = 13 then 1 else m + 1) ey em)
       (\<lambda>rest. Some ((y, m) # rest))"
  by (subst month_range.simps) (simp only: if_True)

lemma period_of_month_index:
  "1 \<le> m \<Longrightarrow> m \<le> 12 \<Longrightarrow> period_of_index (month_index (y, m)) = (y, m)"
  by (simp add: period_of_index_def month_index_def)

lemma month_range_calendar:
  "1 \<le> m \<Longrightarrow> m \<le> 12 \<Longrightarrow> 1 \<le> em \<Longrightarrow> em \<le> 12 \<Longrightarrow>
   month_range y m ey em = Some (periods_between (y, m) (ey, em))"
proof (induction "nat (month_index (ey, em) + 1 - month_index (y, m))" arbitrary: y m rule: less_induct)
  case less
  show ?case
  proof (cases "y < ey \<or> (y = ey \<and> m \<le> em)")
    case False
    with less.prems have "month_index (ey, em) < month_index (y, m)"
      by (auto simp: month_index_def)
    then have "periods_between (y, m) (ey, em) = []"
      by (simp add: periods_between_def)
    with False show ?thesis by (simp add: month_range_stop)
  next
    case True
    with less.prems have le: "month_index (y, m) \<le> month_index (ey, em)"
      by (auto simp: month_index_def)
    let ?y' = "if m + 1 = 13 then y + 1 else y"
    let ?m' = "if m + 1 = 13 then 1 else m + 1"
    have idx: "month_index (?y', ?m') = month_index (y, m) + 1"
      by (simp add: month_index_def)
    have cal: "1 \<le> ?m'" "?m' \<le> 12" using less.prems by auto
    have "month_range ?y' ?m' ey em = Some (periods_between (?y', ?m') (ey, em))"
      using less.hyps[of ?y' ?m'] cal less.prems(3,4) le idx by simp
    moreover have "periods_between (y, m) (ey, em) = (y, m) # periods_between (?y', ?m') (ey, em)"
      using le idx less.prems(1,2)
      by (simp add: periods_between_def upto_rec1 period_of_month_index)
    ultimately show ?thesis using True by (simp add: month_range_step)
  qed
qed

lemma period_lt_le_trans: "period_lt a b \<Longrightarrow> period_le b c \<Longrightarrow> period_lt a c"
  by (cases a; cases b; cases c) (auto simp: period_le_def)

lemma month_range_total:
  "m \<le> 12 \<Longrightarrow> \<exists>ps. month_range y m ey em = Some ps \<and> sorted_wrt period_lt ps \<and> (\<forall>p\<in>set ps. period_le (y, m) p)"
proof (induction "nat (12 * (ey - y) + (12 - m) + 1)" arbitrary: y m rule: less_induct)
  case less
  show ?case
  proof (cases "y < ey \<or> (y = ey \<and> m \<le> em)")
    case False
    then show ?thesis by (simp add: month_range_stop)
  next
    case True
    let ?y' = "if m + 1 = 13 then y + 1 else y"
    let ?m' = "if m + 1 = 13 then 1 else m + 1"
    have m': "?m' \<le> 12" using less.prems by auto
    have dec: "nat (12 * (ey - ?y') + (12 - ?m') + 1) < nat (12 * (ey - y) + (12 - m) + 1)"
      using True less.prems by auto
    from less.hyps[OF dec m'] obtain ps where
      ps: "month_range ?y' ?m' ey em = Some ps" "sorted_wrt period_lt ps"
          "\<forall>p\<in>set ps. period_le (?y', ?m') p"
      by blast
    have lt: "period_lt (y, m) (?y', ?m')" by simp
    have "\<forall>p\<in>set ps. period_lt (y, m) p"
      using ps(3) period_lt_le_trans[OF lt] by blast
    then have "sorted_wrt period_lt ((y, m) # ps)" "\<forall>p\<in>set ((y, m) # ps). period_le (y, m) p"
      using ps(2) by (auto simp: period_le_def)
    moreover have "month_range y m ey em = Some ((y, m) # ps)"
      using True ps(1) by (simp add: month_range_step)
    ultimately show ?thesis by blast
  qed
qed

lemma csv_neq_parquet [simp]:
  "csv_gz_filepath p \<noteq> parquet_filepath p" "parquet_filepath p \<noteq> csv_gz_filepath p"
  by (simp_all add: csv_gz_filepath_def parquet_filepath_def csv_gz_filename_def
      parquet_filename_def)

lemma exists_update [simp]: "path_exists (AList.update k n fs) p = (p = k \<or> path_exists fs p)"
  by (simp add: path_exists_def update_conv')

lemma exists_delete [simp]: "path_exists (AList.delete k fs) p = (p \<noteq> k \<and> path_exists fs p)"
  by (simp add: path_exists_def delete_conv')

lemma broken_update [simp]:
  "broken (AList.update k n fs) p = (if p = k then n \<le> 1024 else broken fs p)"
  by (simp add: broken_def update_conv')

lemma broken_delete [simp]: "broken (AList.delete k fs) p = (p \<noteq> k \<and> broken fs p)"
  by (simp add: broken_def delete_conv')

lemma broken_exists: "broken fs p \<Longrightarrow> path_exists fs p"
  by (auto simp: broken_def path_exists_def split: option.splits)

lemma valid_not_broken: "valid fs p \<Longrightarrow> \<not> broken fs p"
  by (auto simp: broken_def valid_def split: option.splits)

lemma not_exists_not_broken: "\<not> path_exists fs p \<Longrightarrow> \<not> broken fs p"
  by (auto simp: broken_def path_exists_def split: option.splits)

lemma files_record_call [simp]: "files (record_call e w) = files w"
  by (simp add: record_call_def)

lemma calls_record_call [simp]: "calls (record_call e w) = calls w @ [e]"
  by (simp add: record_call_def)

subsection \<open>Deleting files\<close>

lemma unlink_files:
  "files (snd (unlink E p w)) =
     (if path_exists (files w) p \<and> unlink_permitted E (files w) p then AList.delete p (files w)
      else files w)"
  by (simp add: unlink_def Let_def)

lemma unlink_calls [simp]: "calls (snd (unlink E p w)) = calls w @ [Unlink p]"
  by (simp add: unlink_def Let_def)

lemma remove_if_exists_files:
  "files (remove_if_exists E p w) =
     (if path_exists (files w) p \<and> unlink_permitted E (files w) p then AList.delete p (files w)
      else files w)"
  by (simp add: remove_if_exists_def unlink_files)

lemma remove_if_exists_gone:
  "\<forall>fs. unlink_permitted E fs p \<Longrightarrow> \<not> path_exists (files (remove_if_exists E p w)) p"
  by (simp add: remove_if_exists_files)

lemma remove_if_exists_other:
  "q \<noteq> p \<Longrightarrow> broken (files (remove_if_exists E p w)) q = broken (files w) q"
  by (simp add: remove_if_exists_files)

lemma remove_if_exists_calls:
  "\<exists>r. calls (remove_if_exists E p w) = calls w @ r \<and> set r \<subseteq> {Unlink p}"
  by (simp add: remove_if_exists_def)

subsection \<open>The fetcher\<close>

lemma download_file_files:
  "files (snd (download_file E url dest w)) = files w \<or>
   (\<exists>n. files (snd (download_file E url dest w)) = AList.update dest n (files w))"
  by (auto simp: download_file_def Let_def split: http_result.splits option.splits)

lemma download_file_broken:
  "q \<noteq> dest \<Longrightarrow> broken (files (snd (download_file E url dest w))) q = broken (files w) q"
  using download_file_files[of E url dest w] by auto

lemma download_file_calls [simp]:
  "calls (snd (download_file E url dest w)) = calls w @ [Fetch url dest]"
  by (auto simp: download_file_def Let_def split: http_result.splits option.splits)


subsection \<open>The converter\<close>

lemma convert_calls:
  "\<exists>r. calls (snd (convert_csv_gz_to_parquet E c q w)) = calls w @ Convert c q # r \<and>
       set r \<subseteq> {Unlink q}"
  by (auto simp: convert_csv_gz_to_parquet_def Let_def remove_if_exists_def
      split: copy_result.splits option.splits)

lemma convert_failure_gone:
  assumes "fst (convert_csv_gz_to_parquet E c q w) = Inl msg"
    and "\<forall>fs. unlink_permitted E fs q"
  shows "\<not> path_exists (files (snd (convert_csv_gz_to_parquet E c q w))) q"
  using assms
  by (auto simp: convert_csv_gz_to_parquet_def Let_def remove_if_exists_files
      split: copy_result.splits option.splits)

text \<open>
  Claim C8, amended. Whenever \<^verbatim>\<open>convert_csv_gz_to_parquet\<close> fails and deleting the artifact is
  not refused, no file remains at the artifact path when the error reaches the caller.
\<close>

theorem convert_failure_deletes_when_permitted:
  assumes "fst (convert_csv_gz_to_parquet E c q w) = Inl msg"
    and "\<forall>fs. unlink_permitted E fs q"
  shows "\<not> path_exists (files (snd (convert_csv_gz_to_parquet E c q w))) q"
  using assms by (rule convert_failure_gone)

lemma convert_ok_broken:
  assumes "fst (convert_csv_gz_to_parquet E c q w) = Inr u"
  shows "\<exists>n. duckdb_copy E (files w) c q = Copied n \<and>
             files (snd (convert_csv_gz_to_parquet E c q w)) = AList.update q n (files w)"
  using assms
  by (auto simp: convert_csv_gz_to_parquet_def Let_def
      split: copy_result.splits option.splits)

lemma convert_other:
  "p \<noteq> q \<Longrightarrow> path_exists (files (snd (convert_csv_gz_to_parquet E c q w))) p
     = path_exists (files w) p"
  by (auto simp: convert_csv_gz_to_parquet_def Let_def remove_if_exists_files
      split: copy_result.splits option.splits)

text \<open>
  Against C8 as stated: the conversion raises after writing 100 bytes and the operating
  system refuses the deletion; the error propagates and the partial file is still there.
\<close>

theorem convert_failure_counterexample:
  "fst (convert_csv_gz_to_parquet E_stuck ''data/fhv/a.csv.gz'' ''data/fhv/a.parquet''
          \<lparr>files = [], calls = []\<rparr>) = Inl ''IO Error'' \<and>
   path_exists (files (snd (convert_csv_gz_to_parquet E_stuck ''data/fhv/a.csv.gz''
          ''data/fhv/a.parquet'' \<lparr>files = [], calls = []\<rparr>))) ''data/fhv/a.parquet''"
  by (simp add: convert_csv_gz_to_parquet_def E_stuck_def Let_def remove_if_exists_def
      unlink_def record_call_def path_exists_def)

subsection \<open>One unit of the batch\<close>

lemma process_unit_skip:
  "valid (files (world b)) (parquet_filepath p) \<Longrightarrow>
   process_unit E p b = b\<lparr>successes := successes b @ [parquet_filepath p]\<rparr>"
  by (simp add: process_unit_def Let_def)

lemma process_unit_outcome:
  "(successes (process_unit E p b) = successes b @ [parquet_filepath p] \<and>
    failures (process_unit E p b) = failures b) \<or>
   (successes (process_unit E p b) = successes b \<and>
    (\<exists>msg. failures (process_unit E p b) = failures b @ [(csv_gz_filename p, msg)]))"
  by (auto simp: process_unit_def Let_def split: prod.splits sum.splits)

text \<open>
  Claim C3, amended. If deleting the artifact is never refused and every conversion of the
  unit that returns normally has written more than 1024 bytes, then at the end of the unit
  the artifact path is not Broken: it is absent or Valid.
\<close>

theorem artifact_not_broken_after_unit:
  assumes perm: "\<forall>fs. unlink_permitted E fs (parquet_filepath p)"
    and big: "\<forall>fs n. duckdb_copy E fs (csv_gz_filepath p) (parquet_filepath p) = Copied n
                \<longrightarrow> 1024 < n"
  shows "\<not> broken (files (world (process_unit E p b))) (parquet_filepath p)"
proof (cases "valid (files (world b)) (parquet_filepath p)")
  case True
  then show ?thesis by (simp add: process_unit_skip valid_not_broken)
next
  case False
  let ?pq = "parquet_filepath p" and ?csv = "csv_gz_filepath p"
  define w1 where "w1 = (if broken (files (world b)) ?pq then snd (unlink E ?pq (world b)) else world b)"
  have w1: "\<not> broken (files w1) ?pq"
    using perm by (auto simp: w1_def unlink_files broken_exists)
  obtain r w2 where d: "download_file E (url_of p) ?csv w1 = (r, w2)" by (cases "download_file E (url_of p) ?csv w1")
  have w2: "\<not> broken (files w2) ?pq"
    using download_file_broken[of ?pq ?csv E "url_of p" w1] d w1 by simp
  show ?thesis
  proof (cases r)
    case (Inl e)
    then show ?thesis using False d w2
      by (simp add: process_unit_def Let_def w1_def[symmetric] remove_if_exists_other)
  next
    case (Inr u)
    obtain r' w3 where c: "convert_csv_gz_to_parquet E ?csv ?pq w2 = (r', w3)"
      by (cases "convert_csv_gz_to_parquet E ?csv ?pq w2")
    have "\<not> broken (files w3) ?pq"
    proof (cases r')
      case (Inl e)
      then have "\<not> path_exists (files w3) ?pq"
        using convert_failure_gone[of E ?csv ?pq w2 e] c perm by simp
      then show ?thesis by (rule not_exists_not_broken)
    next
      case (Inr u')
      then obtain n where n: "duckdb_copy E (files w2) ?csv ?pq = Copied n"
        "files w3 = AList.update ?pq n (files w2)"
        using convert_ok_broken[of E ?csv ?pq w2 u'] c by auto
      from n(1) big have "1024 < n" by blast
      then show ?thesis using n(2) by simp
    qed
    then show ?thesis using False d c Inr
      by (cases r') (simp_all add: process_unit_def Let_def w1_def[symmetric] remove_if_exists_other)
  qed
qed

text \<open>
  Claim C4, amended. For every unit that is not skipped (its artifact is not Valid at the
  start), whether the download fails, the conversion fails or both succeed, the staging path
  does not exist after the unit, provided deleting the staging file is not refused. A skipped
  unit leaves the whole world, its staging path included, as it was.
\<close>

theorem staging_removed_after_unit:
  "(\<not> valid (files (world b)) (parquet_filepath p) \<longrightarrow>
      (\<forall>fs. unlink_permitted E fs (csv_gz_filepath p)) \<longrightarrow>
      \<not> path_exists (files (world (process_unit E p b))) (csv_gz_filepath p)) \<and>
   (valid (files (world b)) (parquet_filepath p) \<longrightarrow>
      world (process_unit E p b) = world b)"
  by (auto simp: process_unit_skip process_unit_def Let_def remove_if_exists_gone
      split: prod.splits sum.splits)

lemma broken_unit_trace:
  assumes "broken (files (world b)) (parquet_filepath p)"
  shows "\<not> valid (files (world b)) (parquet_filepath p) \<and>
    (\<exists>rest. calls (world (process_unit E p b)) =
        calls (world b) @ Unlink (parquet_filepath p)
          # Fetch (url_of p) (csv_gz_filepath p) # rest \<and>
      (Convert (csv_gz_filepath p) (parquet_filepath p) \<in> set rest \<longleftrightarrow>
         fst (download_file E (url_of p) (csv_gz_filepath p)
                (snd (unlink E (parquet_filepath p) (world b)))) = Inr ()) \<and>
      (successes (process_unit E p b) \<noteq> successes b \<longrightarrow>
         Convert (csv_gz_filepath p) (parquet_filepath p) \<in> set rest)) \<and>
    (unlink_permitted E (files (world b)) (parquet_filepath p) \<longrightarrow>
       \<not> path_exists (files (snd (unlink E (parquet_filepath p) (world b)))) (parquet_filepath p))"
proof -
  let ?pq = "parquet_filepath p" and ?csv = "csv_gz_filepath p"
  let ?w1 = "snd (unlink E ?pq (world b))"
  have nv: "\<not> valid (files (world b)) ?pq"
    using assms valid_not_broken by blast
  obtain r w2 where d: "download_file E (url_of p) ?csv ?w1 = (r, w2)"
    by (cases "download_file E (url_of p) ?csv ?w1")
  have c2: "calls w2 = calls (world b) @ [Unlink ?pq, Fetch (url_of p) ?csv]"
    using download_file_calls[of E "url_of p" ?csv ?w1] d by simp
  have purge: "unlink_permitted E (files (world b)) ?pq \<longrightarrow> \<not> path_exists (files ?w1) ?pq"
    by (simp add: unlink_files)
  have main: "\<exists>rest. calls (world (process_unit E p b)) =
        calls (world b) @ Unlink ?pq # Fetch (url_of p) ?csv # rest \<and>
      (Convert ?csv ?pq \<in> set rest \<longleftrightarrow> r = Inr ()) \<and>
      (successes (process_unit E p b) \<noteq> successes b \<longrightarrow> Convert ?csv ?pq \<in> set rest)"
  proof (cases r)
    case (Inl e)
    obtain x where x: "calls (remove_if_exists E ?csv w2) = calls w2 @ x" "set x \<subseteq> {Unlink ?csv}"
      using remove_if_exists_calls by blast
    have "calls (world (process_unit E p b)) = calls w2 @ x"
      using nv assms d Inl x by (simp add: process_unit_def Let_def)
    moreover have "successes (process_unit E p b) = successes b"
      using nv assms d Inl by (simp add: process_unit_def Let_def)
    ultimately show ?thesis using c2 x(2) Inl by auto
  next
    case (Inr u)
    obtain r' w3 where c: "convert_csv_gz_to_parquet E ?csv ?pq w2 = (r', w3)"
      by (cases "convert_csv_gz_to_parquet E ?csv ?pq w2")
    obtain y where y: "calls w3 = calls w2 @ Convert ?csv ?pq # y"
      using convert_calls[of E ?csv ?pq w2] c by auto
    obtain x where x: "calls (remove_if_exists E ?csv w3) = calls w3 @ x"
      using remove_if_exists_calls by blast
    have "calls (world (process_unit E p b)) = calls w3 @ x"
      using nv assms d c Inr x by (cases r') (simp_all add: process_unit_def Let_def)
    then show ?thesis using c2 y Inr by auto
  qed
  show ?thesis using nv main purge d by simp
qed

subsection \<open>The whole batch\<close>

lemma run_units_Nil [simp]: "run_units E [] b = b"
  by (simp add: run_units_def)

lemma run_units_Cons [simp]: "run_units E (p # ps) b = run_units E ps (process_unit E p b)"
  by (simp add: run_units_def)

lemma run_units_partition:
  "\<exists>sps fps. subseq sps ps \<and> subseq fps ps \<and> set sps \<union> set fps = set ps \<and>
     length sps + length fps = length ps \<and>
     successes (run_units E ps b) = successes b @ map parquet_filepath sps \<and>
     failures (run_units E ps b) = failures b @ drop (length (failures b)) (failures (run_units E ps b)) \<and>
     map fst (failures (run_units E ps b)) = map fst (failures b) @ map csv_gz_filename fps"
proof (induction ps arbitrary: b)
  case Nil
  show ?case by simp
next
  case (Cons p ps)
  let ?b1 = "process_unit E p b"
  from Cons[of ?b1] obtain sps fps where ih:
    "subseq sps ps" "subseq fps ps" "set sps \<union> set fps = set ps"
    "length sps + length fps = length ps"
    "successes (run_units E ps ?b1) = successes ?b1 @ map parquet_filepath sps"
    "failures (run_units E ps ?b1) = failures ?b1 @ drop (length (failures ?b1)) (failures (run_units E ps ?b1))"
    "map fst (failures (run_units E ps ?b1)) = map fst (failures ?b1) @ map csv_gz_filename fps"
    by blast
  from process_unit_outcome[of E p b] show ?case
  proof (elim disjE conjE exE)
    assume a: "successes ?b1 = successes b @ [parquet_filepath p]" "failures ?b1 = failures b"
    have "subseq (p # sps) (p # ps)" "subseq fps (p # ps)"
      "set (p # sps) \<union> set fps = set (p # ps)"
      "length (p # sps) + length fps = length (p # ps)"
      using ih by auto
    moreover have "successes (run_units E (p # ps) b) = successes b @ map parquet_filepath (p # sps)"
      "failures (run_units E (p # ps) b) = failures b @ drop (length (failures b)) (failures (run_units E (p # ps) b))"
      "map fst (failures (run_units E (p # ps) b)) = map fst (failures b) @ map csv_gz_filename fps"
      using ih(5,6,7) a by simp_all
    ultimately show ?thesis by blast
  next
    fix msg
    assume a: "successes ?b1 = successes b" "failures ?b1 = failures b @ [(csv_gz_filename p, msg)]"
    have "subseq sps (p # ps)" "subseq (p # fps) (p # ps)"
      "set sps \<union> set (p # fps) = set (p # ps)"
      "length sps + length (p # fps) = length (p # ps)"
      using ih by auto
    moreover have f: "failures (run_units E ps ?b1) = failures b @ (csv_gz_filename p, msg) # drop (length (failures ?b1)) (failures (run_units E ps ?b1))"
      using ih(6) a by simp
    have "successes (run_units E (p # ps) b) = successes b @ map parquet_filepath sps"
      "failures (run_units E (p # ps) b) = failures b @ drop (length (failures b)) (failures (run_units E (p # ps) b))"
      "map fst (failures (run_units E (p # ps) b)) = map fst (failures b) @ map csv_gz_filename (p # fps)"
      using ih(5,7) a f by simp_all (metis append_eq_conv_conj)
    ultimately show ?thesis by blast
  qed
qed

text \<open>
  Claim C1. For every range whose start month is at most 12 (so that the enumeration stops),
  \<^verbatim>\<open>download_and_convert_fhv_files\<close> returns, and it records exactly one outcome per
  enumerated period: the enumerated periods split into a subsequence \<open>sps\<close> of successes and
  a subsequence \<open>fps\<close> of failures that together cover every period, the lengths add up to the
  number of periods, and the failures are listed in the ascending order of the enumeration.
  No failure of a unit ends the loop.
\<close>

theorem batch_records_every_period:
  assumes "start_month \<le> 12"
  shows "\<exists>ps b. month_range start_year start_month end_year end_month = Some ps \<and>
      sorted_wrt period_lt ps \<and>
      download_and_convert_fhv_files E start_year start_month end_year end_month w = Some b \<and>
      length (successes b) + length (failures b) = length ps \<and>
      (\<exists>sps fps. subseq sps ps \<and> subseq fps ps \<and> set sps \<union> set fps = set ps \<and>
         successes b = map parquet_filepath sps \<and>
         map fst (failures b) = map csv_gz_filename fps)"
proof -
  from month_range_total[OF assms, of start_year end_year end_month] obtain ps where
    ps: "month_range start_year start_month end_year end_month = Some ps" "sorted_wrt period_lt ps"
    by blast
  let ?b = "run_units E ps \<lparr>successes = [], failures = [], world = w\<rparr>"
  from run_units_partition[of ps E "\<lparr>successes = [], failures = [], world = w\<rparr>"]
  obtain sps fps where p: "subseq sps ps" "subseq fps ps" "set sps \<union> set fps = set ps"
    "length sps + length fps = length ps"
    "successes ?b = map parquet_filepath sps" "map fst (failures ?b) = map csv_gz_filename fps"
    by auto
  have "length (successes ?b) + length (failures ?b) = length ps"
    using p(4,5) arg_cong[OF p(6), of length] by simp
  moreover have "download_and_convert_fhv_files E start_year start_month end_year end_month w = Some ?b"
    by (simp add: download_and_convert_fhv_files_def ps(1))
  ultimately show ?thesis using ps p by blast
qed

text \<open>
  The theorem of C1 at the range (2019,11) to (2020,2), with a remote that answers 404.
\<close>

theorem batch_records_every_period_witness:
  "(11::int) \<le> 12 \<and>
   (\<exists>ps b. month_range 2019 11 2020 2 = Some ps \<and>
      sorted_wrt period_lt ps \<and>
      download_and_convert_fhv_files E_404 2019 11 2020 2 w_empty = Some b \<and>
      length (successes b) + length (failures b) = length ps \<and>
      (\<exists>sps fps. subseq sps ps \<and> subseq fps ps \<and> set sps \<union> set fps = set ps \<and>
         successes b = map parquet_filepath sps \<and>
         map fst (failures b) = map csv_gz_filename fps))"
  using batch_records_every_period[of 11 2019 2020 2 E_404 w_empty] by simp

lemma run_units_all_valid:
  "\<forall>p\<in>set ps. valid (files (world b)) (parquet_filepath p) \<Longrightarrow>
   run_units E ps b = b\<lparr>successes := successes b @ map parquet_filepath ps\<rparr>"
  by (induction ps arbitrary: b) (simp_all add: process_unit_skip)

text \<open>
  Claim C10. When the start period is strictly after the end period, \<^verbatim>\<open>month_range\<close> yields
  nothing, and the batch returns no successes and no failures and the world it was given: no
  service was called.
\<close>

theorem empty_range_does_nothing:
  assumes "period_lt (end_year, end_month) (start_year, start_month)"
  shows "month_range start_year start_month end_year end_month = Some [] \<and>
    download_and_convert_fhv_files E start_year start_month end_year end_month w =
      Some \<lparr>successes = [], failures = [], world = w\<rparr>"
proof -
  have "month_range start_year start_month end_year end_month = Some []"
    using assms by (intro month_range_stop) auto
  then show ?thesis by (simp add: download_and_convert_fhv_files_def)
qed

text \<open>
  The theorem of C10 at the range (2020,1) to (2019,12).
\<close>

theorem empty_range_does_nothing_witness:
  "period_lt (2019, 12) (2020, 1) \<and> month_range 2020 1 2019 12 = Some [] \<and>
    download_and_convert_fhv_files E_tiny 2020 1 2019 12 w_empty =
      Some \<lparr>successes = [], failures = [], world = w_empty\<rparr>"
  using empty_range_does_nothing[of 2019 12 2020 1 E_tiny w_empty] by simp

lemma month_range_single: "month_range 2019 1 2019 1 = Some [(2019, 1)]"
  by (simp add: month_range_step month_range_stop)

text \<open>
  Against C2 as stated: with a remote that always answers 404, the batch for January 2019 run
  on an empty directory records a failure and calls the fetcher once; run a second time on the
  world the first run left, with the remote unchanged, it calls the fetcher again.
\<close>

theorem second_run_fetches_again_counterexample:
  "download_and_convert_fhv_files E_404 2019 1 2019 1 w_empty =
     Some \<lparr>successes = [],
           failures = [(csv_gz_filename (2019, 1), ''download failed: 404 Client Error'')],
           world = \<lparr>files = [],
                     calls = [Fetch (url_of (2019, 1)) (csv_gz_filepath (2019, 1))]\<rparr>\<rparr> \<and>
   download_and_convert_fhv_files E_404 2019 1 2019 1
       \<lparr>files = [], calls = [Fetch (url_of (2019, 1)) (csv_gz_filepath (2019, 1))]\<rparr> =
     Some \<lparr>successes = [],
           failures = [(csv_gz_filename (2019, 1), ''download failed: 404 Client Error'')],
           world = \<lparr>files = [],
                     calls = [Fetch (url_of (2019, 1)) (csv_gz_filepath (2019, 1)),
                              Fetch (url_of (2019, 1)) (csv_gz_filepath (2019, 1))]\<rparr>\<rparr>"
  by (simp add: download_and_convert_fhv_files_def month_range_single process_unit_def Let_def
      valid_def broken_def download_file_def E_404_def error_status_def record_call_def
      remove_if_exists_def path_exists_def w_empty_def)

text \<open>
  Against C3 as stated: the download succeeds and the conversion returns normally after
  writing 500 bytes; the unit is recorded as a success and its artifact is Broken.
\<close>

theorem tiny_conversion_counterexample:
  "successes (process_unit E_tiny (2019, 1) \<lparr>successes = [], failures = [], world = w_empty\<rparr>) =
     [parquet_filepath (2019, 1)] \<and>
   broken (files (world (process_unit E_tiny (2019, 1)
     \<lparr>successes = [], failures = [], world = w_empty\<rparr>))) (parquet_filepath (2019, 1))"
  by (simp add: process_unit_def Let_def valid_def download_file_def E_tiny_def
      error_status_def convert_csv_gz_to_parquet_def remove_if_exists_files w_empty_def
      broken_def path_exists_def)

text \<open>
  Against C4 as stated: a staging file left beside a Valid artifact survives the unit, which
  is recorded as a success through the skip path.
\<close>

theorem skipped_unit_keeps_staging_counterexample:
  "successes (process_unit E_tiny (2019, 1) \<lparr>successes = [], failures = [], world = w_leftover\<rparr>) =
     [parquet_filepath (2019, 1)] \<and>
   path_exists (files (world (process_unit E_tiny (2019, 1)
     \<lparr>successes = [], failures = [], world = w_leftover\<rparr>))) (csv_gz_filepath (2019, 1))"
  by (simp add: process_unit_def Let_def valid_def w_leftover_def path_exists_def)

subsection \<open>The enumeration and the specification's list\<close>

lemma period_of_index_mono: "i < j \<Longrightarrow> period_lt (period_of_index i) (period_of_index j)"
  by (simp add: period_of_index_def) presburger

lemma sorted_periods_between: "sorted_wrt period_lt (periods_between a b)"
proof -
  have "sorted_wrt (<) [month_index a..month_index b]"
    by (simp add: sorted_wrt_iff_nth_less)
  then have "sorted_wrt (\<lambda>i j. period_lt (period_of_index i) (period_of_index j))
      [month_index a..month_index b]"
    using sorted_wrt_mono_rel[of "[month_index a..month_index b]" "(<)"
        "\<lambda>i j. period_lt (period_of_index i) (period_of_index j)"] period_of_index_mono
    by blast
  then show ?thesis by (simp add: periods_between_def sorted_wrt_map)
qed

lemma calendar_period_of_index: "calendar (period_of_index k)"
  by (simp add: calendar_def period_of_index_def)

lemma month_index_period_of_index: "month_index (period_of_index k) = k"
  by (simp add: month_index_def period_of_index_def)

lemma period_le_month_index:
  "calendar p \<Longrightarrow> calendar q \<Longrightarrow> period_le p q \<longleftrightarrow> month_index p \<le> month_index q"
  by (cases p; cases q) (auto simp: calendar_def period_le_def month_index_def)

lemma set_periods_between:
  assumes "calendar a" "calendar b"
  shows "set (periods_between a b) = {p. calendar p \<and> period_le a p \<and> period_le p b}"
proof (intro set_eqI iffI)
  fix p assume "p \<in> set (periods_between a b)"
  then obtain k where k: "p = period_of_index k" "month_index a \<le> k" "k \<le> month_index b"
    by (auto simp: periods_between_def)
  then show "p \<in> {p. calendar p \<and> period_le a p \<and> period_le p b}"
    using assms by (simp add: calendar_period_of_index period_le_month_index
        month_index_period_of_index)
next
  fix p assume "p \<in> {p. calendar p \<and> period_le a p \<and> period_le p b}"
  then have p: "calendar p" "month_index a \<le> month_index p" "month_index p \<le> month_index b"
    using assms by (auto simp: period_le_month_index)
  have "p = period_of_index (month_index p)"
    using p(1) period_of_month_index[of "snd p" "fst p"] by (simp add: calendar_def)
  then show "p \<in> set (periods_between a b)"
    using p(2,3) by (auto simp: periods_between_def)
qed

text \<open>
  Claim C6. For calendar periods (months between 1 and 12) with the start not after the end,
  \<^verbatim>\<open>month_range\<close> stops and yields exactly the periods from start to end inclusive: the
  yielded list is strictly ascending in the (year, month) order, and its elements are all the
  calendar periods between start and end; month 12 is followed by month 1 of the next year.
  In particular (2019,11) to (2020,2) yields (2019,11), (2019,12), (2020,1), (2020,2).
\<close>

theorem month_range_enumerates:
  assumes "calendar (start_year, start_month)" and "calendar (end_year, end_month)"
    and "period_le (start_year, start_month) (end_year, end_month)"
  shows "month_range start_year start_month end_year end_month =
           Some (periods_between (start_year, start_month) (end_year, end_month)) \<and>
         sorted_wrt period_lt (periods_between (start_year, start_month) (end_year, end_month)) \<and>
         set (periods_between (start_year, start_month) (end_year, end_month)) =
           {p. calendar p \<and> period_le (start_year, start_month) p \<and>
               period_le p (end_year, end_month)} \<and>
         month_range 2019 11 2020 2 = Some [(2019, 11), (2019, 12), (2020, 1), (2020, 2)]"
proof -
  have "month_range 2019 11 2020 2 = Some [(2019, 11), (2019, 12), (2020, 1), (2020, 2)]"
    by (simp add: month_range_step month_range_stop)
  then show ?thesis
    using assms month_range_calendar[of start_month end_month start_year end_year]
    by (simp add: calendar_def sorted_periods_between set_periods_between)
qed

text \<open>
  The theorem of C6 at the range (2019,11) to (2020,2).
\<close>

theorem month_range_enumerates_witness:
  "calendar (2019, 11) \<and> calendar (2020, 2) \<and> period_le (2019, 11) (2020, 2) \<and>
   month_range 2019 11 2020 2 = Some (periods_between (2019, 11) (2020, 2)) \<and>
   periods_between (2019, 11) (2020, 2) = [(2019, 11), (2019, 12), (2020, 1), (2020, 2)]"
  using month_range_enumerates[of 2019 11 2020 2]
  by (auto simp: calendar_def period_le_def)


text \<open>
  The theorem of C8 with a conversion that raises after writing 100 bytes.
\<close>

theorem convert_failure_deletes_when_permitted_witness:
  "fst (convert_csv_gz_to_parquet E_fail ''data/fhv/a.csv.gz'' ''data/fhv/a.parquet'' w_empty) =
     Inl ''IO Error'' \<and>
   (\<forall>fs. unlink_permitted E_fail fs ''data/fhv/a.parquet'') \<and>
   \<not> path_exists (files (snd (convert_csv_gz_to_parquet E_fail ''data/fhv/a.csv.gz''
        ''data/fhv/a.parquet'' w_empty))) ''data/fhv/a.parquet''"
proof -
  have f: "fst (convert_csv_gz_to_parquet E_fail ''data/fhv/a.csv.gz'' ''data/fhv/a.parquet''
      w_empty) = Inl ''IO Error''"
    by (simp add: convert_csv_gz_to_parquet_def E_fail_def Let_def)
  have p: "\<forall>fs. unlink_permitted E_fail fs ''data/fhv/a.parquet''"
    by (simp add: E_fail_def)
  show ?thesis
    using f p convert_failure_deletes_when_permitted[OF f p] by simp
qed

text \<open>
  The theorem of C3 at January 2019, starting from a Broken artifact.
\<close>

theorem artifact_not_broken_after_unit_witness:
  "(\<forall>fs. unlink_permitted E_ok fs (parquet_filepath (2019, 1))) \<and>
   duckdb_copy E_ok [] (csv_gz_filepath (2019, 1)) (parquet_filepath (2019, 1)) = Copied 5000 \<and>
   \<not> broken (files (world (process_unit E_ok (2019, 1)
        \<lparr>successes = [], failures = [], world = w_broken\<rparr>))) (parquet_filepath (2019, 1))"
proof -
  have p: "\<forall>fs. unlink_permitted E_ok fs (parquet_filepath (2019, 1))"
    by (simp add: E_ok_def)
  have c: "\<forall>fs n. duckdb_copy E_ok fs (csv_gz_filepath (2019, 1)) (parquet_filepath (2019, 1))
      = Copied n \<longrightarrow> 1024 < n"
    by (simp add: E_ok_def)
  show ?thesis using p artifact_not_broken_after_unit[OF p c] by (simp add: E_ok_def)
qed

text \<open>
  The theorem of C4 at January 2019: once from a Broken artifact, once from a Valid one.
\<close>

theorem staging_removed_after_unit_witness:
  "\<not> valid (files w_broken) (parquet_filepath (2019, 1)) \<and>
   (\<forall>fs. unlink_permitted E_ok fs (csv_gz_filepath (2019, 1))) \<and>
   \<not> path_exists (files (world (process_unit E_ok (2019, 1)
        \<lparr>successes = [], failures = [], world = w_broken\<rparr>))) (csv_gz_filepath (2019, 1)) \<and>
   valid (files w_leftover) (parquet_filepath (2019, 1)) \<and>
   world (process_unit E_ok (2019, 1) \<lparr>successes = [], failures = [], world = w_leftover\<rparr>) =
     w_leftover"
  using staging_removed_after_unit[of "\<lparr>successes = [], failures = [], world = w_broken\<rparr>"
      "(2019, 1)" E_ok]
    staging_removed_after_unit[of "\<lparr>successes = [], failures = [], world = w_leftover\<rparr>"
      "(2019, 1)" E_ok]
  by (simp add: valid_def w_broken_def w_leftover_def E_ok_def)

subsection \<open>Paths of different periods\<close>

lemma parquet_path_stem: "parquet_filepath q = parquet_filepath p \<longleftrightarrow> stem q = stem p"
  by (simp add: parquet_filepath_def parquet_filename_def)

lemma csv_path_stem: "csv_gz_filepath q = csv_gz_filepath p \<longleftrightarrow> stem q = stem p"
  by (simp add: csv_gz_filepath_def csv_gz_filename_def)

lemma url_stem: "url_of q = url_of p \<longleftrightarrow> stem q = stem p"
  by (simp add: url_of_def csv_gz_filename_def)

lemma csv_never_parquet: "csv_gz_filepath q \<noteq> parquet_filepath p"
proof
  assume "csv_gz_filepath q = parquet_filepath p"
  then have "stem q @ ''.csv.gz'' = stem p @ ''.parquet''"
    by (simp add: csv_gz_filepath_def parquet_filepath_def csv_gz_filename_def
        parquet_filename_def)
  then have "last (stem q @ ''.csv.gz'') = last (stem p @ ''.parquet'')"
    by (rule arg_cong)
  then show False by simp
qed

subsection \<open>What a unit leaves alone\<close>

lemma valid_cong: "map_of fs X = map_of fs' X \<Longrightarrow> valid fs X = valid fs' X"
  by (simp add: valid_def)

lemma unlink_map_of:
  "X \<noteq> p \<Longrightarrow> map_of (files (snd (unlink E p w))) X = map_of (files w) X"
  by (simp add: unlink_files delete_conv')

lemma remove_map_of:
  "X \<noteq> p \<Longrightarrow> map_of (files (remove_if_exists E p w)) X = map_of (files w) X"
  by (simp add: remove_if_exists_files delete_conv')

lemma download_map_of:
  "X \<noteq> dest \<Longrightarrow> map_of (files (snd (download_file E u dest w))) X = map_of (files w) X"
  using download_file_files[of E u dest w] by (auto simp: update_conv')

lemma convert_map_of:
  "X \<noteq> q \<Longrightarrow> map_of (files (snd (convert_csv_gz_to_parquet E c q w))) X = map_of (files w) X"
  by (auto simp: convert_csv_gz_to_parquet_def Let_def remove_map_of update_conv'
      split: copy_result.splits option.splits)

lemma unit_frame:
  assumes "X \<noteq> parquet_filepath q" and "X \<noteq> csv_gz_filepath q"
  shows "map_of (files (world (process_unit E q b))) X = map_of (files (world b)) X"
proof (cases "valid (files (world b)) (parquet_filepath q)")
  case True
  then show ?thesis by (simp add: process_unit_skip)
next
  case False
  let ?pq = "parquet_filepath q" and ?csv = "csv_gz_filepath q"
  define w1 where
    "w1 = (if broken (files (world b)) ?pq then snd (unlink E ?pq (world b)) else world b)"
  have w1: "map_of (files w1) X = map_of (files (world b)) X"
    using assms(1) by (simp add: w1_def unlink_map_of)
  obtain r w2 where d: "download_file E (url_of q) ?csv w1 = (r, w2)"
    by (cases "download_file E (url_of q) ?csv w1")
  have w2: "map_of (files w2) X = map_of (files (world b)) X"
    using download_map_of[OF assms(2), of E "url_of q" w1] d w1 by simp
  show ?thesis
  proof (cases r)
    case (Inl e)
    then show ?thesis using False d w2 assms(2)
      by (simp add: process_unit_def Let_def w1_def[symmetric] remove_map_of)
  next
    case (Inr u)
    obtain r' w3 where c: "convert_csv_gz_to_parquet E ?csv ?pq w2 = (r', w3)"
      by (cases "convert_csv_gz_to_parquet E ?csv ?pq w2")
    have w3: "map_of (files w3) X = map_of (files (world b)) X"
      using convert_map_of[OF assms(1), of E ?csv w2] c w2 by simp
    show ?thesis using False d c Inr w3 assms(2)
      by (cases r') (simp_all add: process_unit_def Let_def w1_def[symmetric] remove_map_of)
  qed
qed

lemma valid_frame:
  assumes "valid (files (world b)) (parquet_filepath p)"
  shows "map_of (files (world (process_unit E q b))) (parquet_filepath p)
           = map_of (files (world b)) (parquet_filepath p)"
proof (cases "parquet_filepath q = parquet_filepath p")
  case True
  with assms show ?thesis by (simp add: process_unit_skip)
next
  case False
  then show ?thesis
    using unit_frame[of "parquet_filepath p" q E b] csv_never_parquet[of q p] by auto
qed

lemma unit_events:
  "\<exists>new. calls (world (process_unit E q b)) = calls (world b) @ new \<and>
     set new \<subseteq> {Unlink (parquet_filepath q), Fetch (url_of q) (csv_gz_filepath q),
                 Convert (csv_gz_filepath q) (parquet_filepath q), Unlink (csv_gz_filepath q)} \<and>
     (\<not> valid (files (world b)) (parquet_filepath q) \<longrightarrow>
        Fetch (url_of q) (csv_gz_filepath q) \<in> set new) \<and>
     (valid (files (world b)) (parquet_filepath q) \<longrightarrow> new = [])"
proof (cases "valid (files (world b)) (parquet_filepath q)")
  case True
  then show ?thesis by (simp add: process_unit_skip)
next
  case False
  let ?pq = "parquet_filepath q" and ?csv = "csv_gz_filepath q"
  define w1 where
    "w1 = (if broken (files (world b)) ?pq then snd (unlink E ?pq (world b)) else world b)"
  obtain n1 where n1: "calls w1 = calls (world b) @ n1" "set n1 \<subseteq> {Unlink ?pq}"
    by (cases "broken (files (world b)) ?pq") (auto simp: w1_def)
  obtain r w2 where d: "download_file E (url_of q) ?csv w1 = (r, w2)"
    by (cases "download_file E (url_of q) ?csv w1")
  have w2: "calls w2 = calls (world b) @ n1 @ [Fetch (url_of q) ?csv]"
    using download_file_calls[of E "url_of q" ?csv w1] d n1(1) by simp
  show ?thesis
  proof (cases r)
    case (Inl e)
    obtain x where x: "calls (remove_if_exists E ?csv w2) = calls w2 @ x" "set x \<subseteq> {Unlink ?csv}"
      using remove_if_exists_calls by blast
    have "calls (world (process_unit E q b)) = calls (world b) @ (n1 @ [Fetch (url_of q) ?csv] @ x)"
      using False d Inl x(1) w2 by (simp add: process_unit_def Let_def w1_def[symmetric])
    moreover have "set (n1 @ [Fetch (url_of q) ?csv] @ x) \<subseteq>
        {Unlink ?pq, Fetch (url_of q) ?csv, Convert ?csv ?pq, Unlink ?csv}"
      using n1(2) x(2) by auto
    moreover have "Fetch (url_of q) ?csv \<in> set (n1 @ [Fetch (url_of q) ?csv] @ x)" by simp
    ultimately show ?thesis using False by blast
  next
    case (Inr u)
    obtain r' w3 where c: "convert_csv_gz_to_parquet E ?csv ?pq w2 = (r', w3)"
      by (cases "convert_csv_gz_to_parquet E ?csv ?pq w2")
    obtain y where y: "calls w3 = calls w2 @ Convert ?csv ?pq # y" "set y \<subseteq> {Unlink ?pq}"
      using convert_calls[of E ?csv ?pq w2] c by auto
    obtain x where x: "calls (remove_if_exists E ?csv w3) = calls w3 @ x" "set x \<subseteq> {Unlink ?csv}"
      using remove_if_exists_calls by blast
    have "calls (world (process_unit E q b)) =
        calls (world b) @ (n1 @ [Fetch (url_of q) ?csv] @ Convert ?csv ?pq # y @ x)"
      using False d c Inr x(1) y(1) w2
      by (cases r') (simp_all add: process_unit_def Let_def w1_def[symmetric])
    moreover have "set (n1 @ [Fetch (url_of q) ?csv] @ Convert ?csv ?pq # y @ x) \<subseteq>
        {Unlink ?pq, Fetch (url_of q) ?csv, Convert ?csv ?pq, Unlink ?csv}"
      using n1(2) x(2) y(2) by auto
    moreover have "Fetch (url_of q) ?csv \<in> set (n1 @ [Fetch (url_of q) ?csv] @ Convert ?csv ?pq # y @ x)"
      by simp
    ultimately show ?thesis using False by blast
  qed
qed

lemma successes_grow: "set (successes b) \<subseteq> set (successes (process_unit E q b))"
  using process_unit_outcome[of E q b] by auto

subsection \<open>Resuming a batch\<close>

lemma run_units_resume:
  "\<exists>new. calls (world (run_units E ps b)) = calls (world b) @ new \<and>
     set (successes b) \<subseteq> set (successes (run_units E ps b)) \<and>
     (\<forall>p. valid (files (world b)) (parquet_filepath p) \<longrightarrow>
        map_of (files (world (run_units E ps b))) (parquet_filepath p)
          = map_of (files (world b)) (parquet_filepath p) \<and>
        (p \<in> set ps \<longrightarrow> parquet_filepath p \<in> set (successes (run_units E ps b))) \<and>
        Fetch (url_of p) (csv_gz_filepath p) \<notin> set new \<and>
        Convert (csv_gz_filepath p) (parquet_filepath p) \<notin> set new \<and>
        Unlink (parquet_filepath p) \<notin> set new) \<and>
     (\<forall>p\<in>set ps. \<not> valid (files (world b)) (parquet_filepath p) \<longrightarrow>
        Fetch (url_of p) (csv_gz_filepath p) \<in> set new)"
proof (induction ps arbitrary: b)
  case Nil
  show ?case by simp
next
  case (Cons q ps)
  let ?b1 = "process_unit E q b"
  let ?b' = "run_units E ps ?b1"
  obtain n1 where n1: "calls (world ?b1) = calls (world b) @ n1"
    "set n1 \<subseteq> {Unlink (parquet_filepath q), Fetch (url_of q) (csv_gz_filepath q),
                 Convert (csv_gz_filepath q) (parquet_filepath q), Unlink (csv_gz_filepath q)}"
    "\<not> valid (files (world b)) (parquet_filepath q) \<longrightarrow>
        Fetch (url_of q) (csv_gz_filepath q) \<in> set n1"
    "valid (files (world b)) (parquet_filepath q) \<longrightarrow> n1 = []"
    using unit_events[of E q b] by blast
  obtain n2 where n2: "calls (world ?b') = calls (world ?b1) @ n2"
    and grow: "set (successes ?b1) \<subseteq> set (successes ?b')"
    and keep: "\<And>p. valid (files (world ?b1)) (parquet_filepath p) \<Longrightarrow>
        map_of (files (world ?b')) (parquet_filepath p)
          = map_of (files (world ?b1)) (parquet_filepath p) \<and>
        (p \<in> set ps \<longrightarrow> parquet_filepath p \<in> set (successes ?b')) \<and>
        Fetch (url_of p) (csv_gz_filepath p) \<notin> set n2 \<and>
        Convert (csv_gz_filepath p) (parquet_filepath p) \<notin> set n2 \<and>
        Unlink (parquet_filepath p) \<notin> set n2"
    and again: "\<And>p. p \<in> set ps \<Longrightarrow> \<not> valid (files (world ?b1)) (parquet_filepath p) \<Longrightarrow>
        Fetch (url_of p) (csv_gz_filepath p) \<in> set n2"
    using Cons[of ?b1] by blast
  have calls: "calls (world (run_units E (q # ps) b)) = calls (world b) @ (n1 @ n2)"
    using n1(1) n2 by simp
  have succ: "set (successes b) \<subseteq> set (successes (run_units E (q # ps) b))"
    using successes_grow[of b E q] grow by auto
  have kept: "map_of (files (world (run_units E (q # ps) b))) (parquet_filepath p)
          = map_of (files (world b)) (parquet_filepath p) \<and>
        (p \<in> set (q # ps) \<longrightarrow> parquet_filepath p \<in> set (successes (run_units E (q # ps) b))) \<and>
        Fetch (url_of p) (csv_gz_filepath p) \<notin> set (n1 @ n2) \<and>
        Convert (csv_gz_filepath p) (parquet_filepath p) \<notin> set (n1 @ n2) \<and>
        Unlink (parquet_filepath p) \<notin> set (n1 @ n2)"
    if v: "valid (files (world b)) (parquet_filepath p)" for p
  proof -
    have m1: "map_of (files (world ?b1)) (parquet_filepath p)
        = map_of (files (world b)) (parquet_filepath p)"
      using valid_frame[OF v] .
    then have v1: "valid (files (world ?b1)) (parquet_filepath p)"
      using v valid_cong by blast
    note k = keep[OF v1]
    have a: "map_of (files (world (run_units E (q # ps) b))) (parquet_filepath p)
          = map_of (files (world b)) (parquet_filepath p)"
      using k m1 by simp
    have b: "p \<in> set (q # ps) \<longrightarrow> parquet_filepath p \<in> set (successes (run_units E (q # ps) b))"
    proof
      assume "p \<in> set (q # ps)"
      then consider "p = q" | "p \<in> set ps" by auto
      then show "parquet_filepath p \<in> set (successes (run_units E (q # ps) b))"
      proof cases
        case 1
        then have "parquet_filepath p \<in> set (successes ?b1)"
          using v by (simp add: process_unit_skip)
        then show ?thesis using grow by auto
      next
        case 2
        then show ?thesis using k by simp
      qed
    qed
    have c: "Fetch (url_of p) (csv_gz_filepath p) \<notin> set n1 \<and>
        Convert (csv_gz_filepath p) (parquet_filepath p) \<notin> set n1 \<and>
        Unlink (parquet_filepath p) \<notin> set n1"
    proof (cases "valid (files (world b)) (parquet_filepath q)")
      case True
      then show ?thesis using n1(4) by simp
    next
      case False
      then have ne: "parquet_filepath q \<noteq> parquet_filepath p"
        using v by auto
      then have st: "stem q \<noteq> stem p" by (simp add: parquet_path_stem)
      then have "csv_gz_filepath q \<noteq> csv_gz_filepath p" by (simp add: csv_path_stem)
      then show ?thesis
        using n1(2) ne csv_never_parquet[of q p] by auto
    qed
    show ?thesis using a b c k by simp
  qed
  have fetched: "Fetch (url_of p) (csv_gz_filepath p) \<in> set (n1 @ n2)"
    if p: "p \<in> set (q # ps)" and nv: "\<not> valid (files (world b)) (parquet_filepath p)" for p
  proof (cases "parquet_filepath q = parquet_filepath p")
    case True
    then have "stem q = stem p" by (simp add: parquet_path_stem)
    then have "url_of q = url_of p" "csv_gz_filepath q = csv_gz_filepath p"
      by (simp_all add: url_stem csv_path_stem)
    moreover have "Fetch (url_of q) (csv_gz_filepath q) \<in> set n1"
      using n1(3) nv True by simp
    ultimately show ?thesis by simp
  next
    case False
    then have "p \<noteq> q" by auto
    then have ps: "p \<in> set ps" using p by simp
    have "map_of (files (world ?b1)) (parquet_filepath p)
        = map_of (files (world b)) (parquet_filepath p)"
      using unit_frame[of "parquet_filepath p" q E b] False csv_never_parquet[of q p] by auto
    then have "\<not> valid (files (world ?b1)) (parquet_filepath p)"
      using nv valid_cong by blast
    then show ?thesis using again[OF ps] by simp
  qed
  show ?case
    using calls succ kept fetched by blast
qed

text \<open>
  Claim C2, amended. A unit whose artifact is Valid at its start is recorded as a success and
  changes nothing else: no file changes and no service is called. Consequently, in every
  batch that starts from a month of at most 12 (so that it returns), each enumerated period
  whose artifact is Valid at the start of the batch is recorded as a success, its artifact is
  left as it was, and neither the fetcher nor the converter nor a deletion is invoked for it,
  whatever happens to the other periods. Each enumerated period whose artifact is not Valid
  at the start is fetched again. When every enumerated artifact is Valid, the batch returns
  all periods as successes in order, no failures, and the world it started from.
\<close>

theorem valid_artifacts_skipped_on_resume:
  assumes "start_month \<le> 12"
  shows "(\<exists>ps b new.
      month_range start_year start_month end_year end_month = Some ps \<and>
      download_and_convert_fhv_files E start_year start_month end_year end_month w = Some b \<and>
      calls (world b) = calls w @ new \<and>
      (\<forall>p\<in>set ps. valid (files w) (parquet_filepath p) \<longrightarrow>
         parquet_filepath p \<in> set (successes b) \<and>
         map_of (files (world b)) (parquet_filepath p) = map_of (files w) (parquet_filepath p) \<and>
         Fetch (url_of p) (csv_gz_filepath p) \<notin> set new \<and>
         Convert (csv_gz_filepath p) (parquet_filepath p) \<notin> set new \<and>
         Unlink (parquet_filepath p) \<notin> set new) \<and>
      (\<forall>p\<in>set ps. \<not> valid (files w) (parquet_filepath p) \<longrightarrow>
         Fetch (url_of p) (csv_gz_filepath p) \<in> set new) \<and>
      ((\<forall>p\<in>set ps. valid (files w) (parquet_filepath p)) \<longrightarrow>
         b = \<lparr>successes = map parquet_filepath ps, failures = [], world = w\<rparr>)) \<and>
    (\<forall>b0 p. valid (files (world b0)) (parquet_filepath p) \<longrightarrow>
       process_unit E p b0 = b0\<lparr>successes := successes b0 @ [parquet_filepath p]\<rparr>)"
proof -
  from month_range_total[OF assms, of start_year end_year end_month] obtain ps where
    ps: "month_range start_year start_month end_year end_month = Some ps"
    by blast
  let ?init = "\<lparr>successes = [], failures = [], world = w\<rparr>"
  let ?res = "run_units E ps ?init"
  have run: "download_and_convert_fhv_files E start_year start_month end_year end_month w = Some ?res"
    by (simp add: download_and_convert_fhv_files_def ps)
  obtain new where new: "calls (world ?res) = calls w @ new"
    and keep: "\<And>p. valid (files w) (parquet_filepath p) \<Longrightarrow>
        map_of (files (world ?res)) (parquet_filepath p) = map_of (files w) (parquet_filepath p) \<and>
        (p \<in> set ps \<longrightarrow> parquet_filepath p \<in> set (successes ?res)) \<and>
        Fetch (url_of p) (csv_gz_filepath p) \<notin> set new \<and>
        Convert (csv_gz_filepath p) (parquet_filepath p) \<notin> set new \<and>
        Unlink (parquet_filepath p) \<notin> set new"
    and again: "\<And>p. p \<in> set ps \<Longrightarrow> \<not> valid (files w) (parquet_filepath p) \<Longrightarrow>
        Fetch (url_of p) (csv_gz_filepath p) \<in> set new"
    using run_units_resume[of E ps ?init] by auto
  have all: "(\<forall>p\<in>set ps. valid (files w) (parquet_filepath p)) \<longrightarrow>
         ?res = \<lparr>successes = map parquet_filepath ps, failures = [], world = w\<rparr>"
    by (simp add: run_units_all_valid)
  have batch: "\<exists>ps b new.
      month_range start_year start_month end_year end_month = Some ps \<and>
      download_and_convert_fhv_files E start_year start_month end_year end_month w = Some b \<and>
      calls (world b) = calls w @ new \<and>
      (\<forall>p\<in>set ps. valid (files w) (parquet_filepath p) \<longrightarrow>
         parquet_filepath p \<in> set (successes b) \<and>
         map_of (files (world b)) (parquet_filepath p) = map_of (files w) (parquet_filepath p) \<and>
         Fetch (url_of p) (csv_gz_filepath p) \<notin> set new \<and>
         Convert (csv_gz_filepath p) (parquet_filepath p) \<notin> set new \<and>
         Unlink (parquet_filepath p) \<notin> set new) \<and>
      (\<forall>p\<in>set ps. \<not> valid (files w) (parquet_filepath p) \<longrightarrow>
         Fetch (url_of p) (csv_gz_filepath p) \<in> set new) \<and>
      ((\<forall>p\<in>set ps. valid (files w) (parquet_filepath p)) \<longrightarrow>
         b = \<lparr>successes = map parquet_filepath ps, failures = [], world = w\<rparr>)"
    apply (rule exI[of _ ps], rule exI[of _ ?res], rule exI[of _ new])
    using ps run new keep again all by blast
  have unit: "\<forall>b0 p. valid (files (world b0)) (parquet_filepath p) \<longrightarrow>
       process_unit E p b0 = b0\<lparr>successes := successes b0 @ [parquet_filepath p]\<rparr>"
    by (simp add: process_unit_skip)
  show ?thesis using batch unit by (rule conjI)
qed

text \<open>
  The theorem of C2 at January and February 2019, with January's artifact Valid, February's
  absent and a remote that answers 404.
\<close>

theorem valid_artifacts_skipped_on_resume_witness:
  "(1::int) \<le> 12 \<and>
   (\<exists>ps b new.
      month_range 2019 1 2019 2 = Some ps \<and>
      download_and_convert_fhv_files E_404 2019 1 2019 2 w_jan = Some b \<and>
      calls (world b) = calls w_jan @ new \<and>
      (\<forall>p\<in>set ps. valid (files w_jan) (parquet_filepath p) \<longrightarrow>
         parquet_filepath p \<in> set (successes b) \<and>
         map_of (files (world b)) (parquet_filepath p) = map_of (files w_jan) (parquet_filepath p) \<and>
         Fetch (url_of p) (csv_gz_filepath p) \<notin> set new \<and>
         Convert (csv_gz_filepath p) (parquet_filepath p) \<notin> set new \<and>
         Unlink (parquet_filepath p) \<notin> set new) \<and>
      (\<forall>p\<in>set ps. \<not> valid (files w_jan) (parquet_filepath p) \<longrightarrow>
         Fetch (url_of p) (csv_gz_filepath p) \<in> set new) \<and>
      ((\<forall>p\<in>set ps. valid (files w_jan) (parquet_filepath p)) \<longrightarrow>
         b = \<lparr>successes = map parquet_filepath ps, failures = [], world = w_jan\<rparr>)) \<and>
   valid (files w_jan) (parquet_filepath (2019, 1)) \<and>
   process_unit E_404 (2019, 1) \<lparr>successes = [], failures = [], world = w_jan\<rparr> =
     \<lparr>successes = [parquet_filepath (2019, 1)], failures = [], world = w_jan\<rparr>"
proof -
  note T = valid_artifacts_skipped_on_resume[of 1 2019 2019 2 E_404 w_jan]
  have le: "(1::int) \<le> 12" by simp
  have v: "valid (files w_jan) (parquet_filepath (2019, 1))"
    by (simp add: valid_def w_jan_def)
  have u: "process_unit E_404 (2019, 1) \<lparr>successes = [], failures = [], world = w_jan\<rparr> =
     \<lparr>successes = [parquet_filepath (2019, 1)], failures = [], world = w_jan\<rparr>"
    using T[OF le, THEN conjunct2, THEN spec, THEN spec, THEN mp,
        of "\<lparr>successes = [], failures = [], world = w_jan\<rparr>" "(2019, 1)"] v
    by simp
  show ?thesis
    using le T[OF le, THEN conjunct1] v u by (intro conjI)
qed

text \<open>
  Against C7 as stated: the operating system refuses the deletion and the remote answers 404.
  The unit calls \<^verbatim>\<open>unlink\<close> and then the fetcher, records a failure, and the 500-byte artifact
  is still there when the fetch runs and when the unit ends: the file was not purged.
\<close>

theorem broken_not_purged_counterexample:
  "broken (files w_broken) (parquet_filepath (2019, 1)) \<and>
   process_unit E_locked (2019, 1) \<lparr>successes = [], failures = [], world = w_broken\<rparr> =
     \<lparr>successes = [],
      failures = [(csv_gz_filename (2019, 1), ''download failed: 404 Client Error'')],
      world = \<lparr>files = [(parquet_filepath (2019, 1), 500)],
                calls = [Unlink (parquet_filepath (2019, 1)),
                         Fetch (url_of (2019, 1)) (csv_gz_filepath (2019, 1))]\<rparr>\<rparr>"
  by (simp add: process_unit_def Let_def valid_def broken_def w_broken_def unlink_def
      record_call_def path_exists_def E_locked_def download_file_def error_status_def
      remove_if_exists_def)

lemma broken_unit_calls:
  assumes "broken (files (world b)) (parquet_filepath p)"
  shows "\<exists>rest. calls (world (process_unit E p b)) =
        calls (world b) @ Unlink (parquet_filepath p)
          # Fetch (url_of p) (csv_gz_filepath p) # rest"
  using broken_unit_trace[OF assms, of E] by blast

text \<open>
  Claim C7, amended. When the artifact is Broken at the start of the unit, the unit does not
  take the skip path. It calls \<^verbatim>\<open>unlink\<close> on the artifact, which deletes the file unless the
  deletion is refused (then the error is swallowed and the file stays); from the world that
  leaves it runs the fetcher and, if the fetch returns normally, the converter, records a
  success exactly when both return normally and a failure otherwise, and cleans up the
  staging file. When the deletion is not refused the artifact is gone before the fetch.
\<close>

theorem broken_artifact_retried_after_unlink:
  assumes "broken (files (world b)) (parquet_filepath p)"
  shows "process_unit E p b =
      (case download_file E (url_of p) (csv_gz_filepath p)
              (snd (unlink E (parquet_filepath p) (world b))) of
         (Inl e, w2) \<Rightarrow>
           b\<lparr>failures := failures b @ [(csv_gz_filename p, ''download failed: '' @ e)],
             world := remove_if_exists E (csv_gz_filepath p) w2\<rparr>
       | (Inr u, w2) \<Rightarrow>
           (case convert_csv_gz_to_parquet E (csv_gz_filepath p) (parquet_filepath p) w2 of
              (Inr u', w3) \<Rightarrow>
                b\<lparr>successes := successes b @ [parquet_filepath p],
                  world := remove_if_exists E (csv_gz_filepath p) w3\<rparr>
            | (Inl e, w3) \<Rightarrow>
                b\<lparr>failures := failures b @ [(csv_gz_filename p, ''convert failed: '' @ e)],
                  world := remove_if_exists E (csv_gz_filepath p) w3\<rparr>)) \<and>
    snd (unlink E (parquet_filepath p) (world b)) =
      \<lparr>files = (if unlink_permitted E (files (world b)) (parquet_filepath p)
                then AList.delete (parquet_filepath p) (files (world b))
                else files (world b)),
       calls = calls (world b) @ [Unlink (parquet_filepath p)]\<rparr> \<and>
    (unlink_permitted E (files (world b)) (parquet_filepath p) \<longrightarrow>
       \<not> path_exists (files (snd (unlink E (parquet_filepath p) (world b))))
           (parquet_filepath p)) \<and>
    (\<exists>rest. calls (world (process_unit E p b)) =
        calls (world b) @ Unlink (parquet_filepath p)
          # Fetch (url_of p) (csv_gz_filepath p) # rest) \<and>
    process_unit E p b \<noteq> b\<lparr>successes := successes b @ [parquet_filepath p]\<rparr>"
proof -
  have nv: "\<not> valid (files (world b)) (parquet_filepath p)"
    using assms valid_not_broken by blast
  have eq: "process_unit E p b =
      (case download_file E (url_of p) (csv_gz_filepath p)
              (snd (unlink E (parquet_filepath p) (world b))) of
         (Inl e, w2) \<Rightarrow>
           b\<lparr>failures := failures b @ [(csv_gz_filename p, ''download failed: '' @ e)],
             world := remove_if_exists E (csv_gz_filepath p) w2\<rparr>
       | (Inr u, w2) \<Rightarrow>
           (case convert_csv_gz_to_parquet E (csv_gz_filepath p) (parquet_filepath p) w2 of
              (Inr u', w3) \<Rightarrow>
                b\<lparr>successes := successes b @ [parquet_filepath p],
                  world := remove_if_exists E (csv_gz_filepath p) w3\<rparr>
            | (Inl e, w3) \<Rightarrow>
                b\<lparr>failures := failures b @ [(csv_gz_filename p, ''convert failed: '' @ e)],
                  world := remove_if_exists E (csv_gz_filepath p) w3\<rparr>))"
    using nv assms by (simp add: process_unit_def Let_def)
  have ex: "path_exists (files (world b)) (parquet_filepath p)"
    using assms by (rule broken_exists)
  have w1: "snd (unlink E (parquet_filepath p) (world b)) =
      \<lparr>files = (if unlink_permitted E (files (world b)) (parquet_filepath p)
                then AList.delete (parquet_filepath p) (files (world b))
                else files (world b)),
       calls = calls (world b) @ [Unlink (parquet_filepath p)]\<rparr>"
    using ex by (simp add: unlink_def Let_def record_call_def)
  have gone: "unlink_permitted E (files (world b)) (parquet_filepath p) \<longrightarrow>
       \<not> path_exists (files (snd (unlink E (parquet_filepath p) (world b))))
           (parquet_filepath p)"
    by (simp add: unlink_files)
  from broken_unit_calls[OF assms, of E] obtain rest where
    rest: "calls (world (process_unit E p b)) =
        calls (world b) @ Unlink (parquet_filepath p)
          # Fetch (url_of p) (csv_gz_filepath p) # rest"
    by blast
  have "calls (world (process_unit E p b)) \<noteq> calls (world b)"
    using rest by simp
  then have ns: "process_unit E p b \<noteq> b\<lparr>successes := successes b @ [parquet_filepath p]\<rparr>"
    by auto
  show ?thesis using eq w1 gone rest ns by blast
qed

text \<open>
  The theorem of C7 at January 2019 with a 500-byte artifact and a deletion that succeeds.
\<close>

theorem broken_artifact_retried_after_unlink_witness:
  "broken (files w_broken) (parquet_filepath (2019, 1)) \<and>
   snd (unlink E_tiny (parquet_filepath (2019, 1)) w_broken) =
     \<lparr>files = [], calls = [Unlink (parquet_filepath (2019, 1))]\<rparr> \<and>
   (\<exists>rest. calls (world (process_unit E_tiny (2019, 1)
        \<lparr>successes = [], failures = [], world = w_broken\<rparr>)) =
      Unlink (parquet_filepath (2019, 1))
        # Fetch (url_of (2019, 1)) (csv_gz_filepath (2019, 1)) # rest) \<and>
   process_unit E_tiny (2019, 1) \<lparr>successes = [], failures = [], world = w_broken\<rparr> \<noteq>
     \<lparr>successes = [parquet_filepath (2019, 1)], failures = [], world = w_broken\<rparr>"
proof -
  have br: "broken (files (world \<lparr>successes = [], failures = [], world = w_broken\<rparr>))
      (parquet_filepath (2019, 1))"
    by (simp add: broken_def w_broken_def)
  note T = broken_artifact_retried_after_unlink[OF br, of E_tiny]
  have b1: "broken (files w_broken) (parquet_filepath (2019, 1))"
    using br by simp
  have b2: "snd (unlink E_tiny (parquet_filepath (2019, 1)) w_broken) =
     \<lparr>files = [], calls = [Unlink (parquet_filepath (2019, 1))]\<rparr>"
    using T[THEN conjunct2, THEN conjunct1] by (simp add: w_broken_def E_tiny_def)
  have b3: "\<exists>rest. calls (world (process_unit E_tiny (2019, 1)
        \<lparr>successes = [], failures = [], world = w_broken\<rparr>)) =
      Unlink (parquet_filepath (2019, 1))
        # Fetch (url_of (2019, 1)) (csv_gz_filepath (2019, 1)) # rest"
    using T[THEN conjunct2, THEN conjunct2, THEN conjunct2, THEN conjunct1]
    by (simp add: w_broken_def)
  have b4: "process_unit E_tiny (2019, 1) \<lparr>successes = [], failures = [], world = w_broken\<rparr> \<noteq>
     \<lparr>successes = [parquet_filepath (2019, 1)], failures = [], world = w_broken\<rparr>"
    using T[THEN conjunct2, THEN conjunct2, THEN conjunct2, THEN conjunct2] by simp
  show ?thesis
    by (intro conjI) (fact b1 b2 b3 b4)+
qed


subsection \<open>The loader\<close>

lemma set_add_new: "set (add_new acc cs) = set acc \<union> set cs"
  by (induction cs arbitrary: acc) auto

lemma set_foldl_add_new: "set (foldl add_new acc xs) = set acc \<union> \<Union> (set ` set xs)"
  by (induction xs arbitrary: acc) (auto simp: set_add_new)

lemma set_all_columns: "set (all_columns ts) = (\<Union>t\<in>set ts. set (columns t))"
  by (simp add: all_columns_def set_foldl_add_new)

lemma pad_row_null:
  assumes "i < length allc" and "allc ! i \<notin> set cs"
  shows "pad_row allc cs r ! i = None"
proof -
  have "allc ! i \<notin> fst ` set (zip cs r)"
    using assms(2) by (auto dest: set_zip_leftD)
  then have "map_of (zip cs r) (allc ! i) = None"
    by (simp add: map_of_eq_None_iff)
  then show ?thesis using assms(1) by (simp add: pad_row_def)
qed

lemma pad_row_keeps:
  assumes "i < length allc" and "j < length cs" and "allc ! i = cs ! j"
    and "distinct cs" and "length r = length cs"
  shows "pad_row allc cs r ! i = r ! j"
proof -
  have "map_of (zip cs r) (cs ! j) = Some (r ! j)"
    using assms(2,4,5) by (simp add: map_of_zip_nth)
  then show ?thesis using assms(1,3) by (simp add: pad_row_def)
qed

lemma valid_in_files: "valid fs p \<Longrightarrow> p \<in> fst ` set fs"
  by (auto simp: valid_def split: option.splits dest: map_of_SomeD intro: rev_image_eqI)

lemma set_good_files: "set (good_files fs) = {p. is_parquet_in_dir p \<and> valid fs p}"
  by (auto simp: good_files_def glob_parquet_def dest: valid_in_files)

lemma sorted_good_files: "sorted (good_files fs) \<and> distinct (good_files fs)"
  by (simp add: good_files_def glob_parquet_def sorted_wrt_filter)

lemma good_files_empty_iff:
  "good_files fs = [] \<longleftrightarrow> (\<forall>p. is_parquet_in_dir p \<longrightarrow> \<not> valid fs p)"
proof -
  have "good_files fs = [] \<longleftrightarrow> set (good_files fs) = {}" by simp
  then show ?thesis unfolding set_good_files by blast
qed

text \<open>
  Claim C5. \<^verbatim>\<open>load_parquets_into_duckdb\<close> raises exactly when no parquet file of the directory
  is Valid, and then the database is as it was. Otherwise it returns normally and the table
  \<^verbatim>\<open>prod.fhv_tripdata\<close> is the union by name of the Valid artifacts, which are taken without
  repetition in sorted order; every other table is untouched. In a union by name the columns
  are those of all the artifacts, a cell of a column the artifact lacks is NULL, and a cell of
  a column the artifact has keeps its value.
\<close>

theorem load_parquets_union_of_valid:
  "((\<exists>e. fst (load_parquets_into_duckdb read fs db) = Inl e) \<longleftrightarrow>
      (\<forall>p. is_parquet_in_dir p \<longrightarrow> \<not> valid fs p)) \<and>
   ((\<exists>e. fst (load_parquets_into_duckdb read fs db) = Inl e) \<longrightarrow>
      snd (load_parquets_into_duckdb read fs db) = db) \<and>
   (fst (load_parquets_into_duckdb read fs db) = Inr () \<longrightarrow>
      tables (snd (load_parquets_into_duckdb read fs db)) ''prod.fhv_tripdata'' =
        Some (union_by_name (map read (good_files fs))) \<and>
      (\<forall>n. n \<noteq> ''prod.fhv_tripdata'' \<longrightarrow>
         tables (snd (load_parquets_into_duckdb read fs db)) n = tables db n) \<and>
      schemas (snd (load_parquets_into_duckdb read fs db)) = insert ''prod'' (schemas db)) \<and>
   sorted (good_files fs) \<and> distinct (good_files fs) \<and>
   set (good_files fs) = {p. is_parquet_in_dir p \<and> valid fs p} \<and>
   set (columns (union_by_name ts)) = (\<Union>t\<in>set ts. set (columns t)) \<and>
   rows (union_by_name ts) =
     concat (map (\<lambda>t. map (pad_row (columns (union_by_name ts)) (columns t)) (rows t)) ts) \<and>
   (\<forall>t r i. i < length (columns (union_by_name ts)) \<longrightarrow>
      columns (union_by_name ts) ! i \<notin> set (columns t) \<longrightarrow>
      pad_row (columns (union_by_name ts)) (columns t) r ! i = None) \<and>
   (\<forall>t r i j. i < length (columns (union_by_name ts)) \<longrightarrow> j < length (columns t) \<longrightarrow>
      columns (union_by_name ts) ! i = columns t ! j \<longrightarrow>
      distinct (columns t) \<longrightarrow> length r = length (columns t) \<longrightarrow>
      pad_row (columns (union_by_name ts)) (columns t) r ! i = r ! j)"
proof -
  have err: "(\<exists>e. fst (load_parquets_into_duckdb read fs db) = Inl e) \<longleftrightarrow> good_files fs = []"
    by (simp add: load_parquets_into_duckdb_def)
  have 1: "(\<exists>e. fst (load_parquets_into_duckdb read fs db) = Inl e) \<longleftrightarrow>
      (\<forall>p. is_parquet_in_dir p \<longrightarrow> \<not> valid fs p)"
    using err good_files_empty_iff by simp
  have 2: "(\<exists>e. fst (load_parquets_into_duckdb read fs db) = Inl e) \<longrightarrow>
      snd (load_parquets_into_duckdb read fs db) = db"
    by (simp add: load_parquets_into_duckdb_def)
  have 3: "fst (load_parquets_into_duckdb read fs db) = Inr () \<longrightarrow>
      tables (snd (load_parquets_into_duckdb read fs db)) ''prod.fhv_tripdata'' =
        Some (union_by_name (map read (good_files fs))) \<and>
      (\<forall>n. n \<noteq> ''prod.fhv_tripdata'' \<longrightarrow>
         tables (snd (load_parquets_into_duckdb read fs db)) n = tables db n) \<and>
      schemas (snd (load_parquets_into_duckdb read fs db)) = insert ''prod'' (schemas db)"
    by (simp add: load_parquets_into_duckdb_def)
  have 4: "set (columns (union_by_name ts)) = (\<Union>t\<in>set ts. set (columns t))"
    by (simp add: union_by_name_def set_all_columns)
  have 5: "rows (union_by_name ts) =
     concat (map (\<lambda>t. map (pad_row (columns (union_by_name ts)) (columns t)) (rows t)) ts)"
    by (simp add: union_by_name_def)
  have 6: "\<forall>t r i. i < length (columns (union_by_name ts)) \<longrightarrow>
      columns (union_by_name ts) ! i \<notin> set (columns t) \<longrightarrow>
      pad_row (columns (union_by_name ts)) (columns t) r ! i = None"
    by (intro allI impI) (rule pad_row_null)
  have 7: "\<forall>t r i j. i < length (columns (union_by_name ts)) \<longrightarrow> j < length (columns t) \<longrightarrow>
      columns (union_by_name ts) ! i = columns t ! j \<longrightarrow>
      distinct (columns t) \<longrightarrow> length r = length (columns t) \<longrightarrow>
      pad_row (columns (union_by_name ts)) (columns t) r ! i = r ! j"
    by (intro allI impI) (rule pad_row_keeps)
  have 8: "sorted (good_files fs)" "distinct (good_files fs)"
    using sorted_good_files[of fs] by simp_all
  have 9: "set (good_files fs) = {p. is_parquet_in_dir p \<and> valid fs p}"
    by (rule set_good_files)
  show ?thesis
    by (intro conjI) (fact 1 2 3 4 5 6 7 8 9)+
qed

text \<open>
  The theorem of C5 on a directory with two Valid artifacts of columns a, b and a, c, a tiny
  parquet file and a file of another kind; and on a directory with the tiny file alone.
\<close>

theorem load_parquets_union_of_valid_witness:
  "valid fs_two ''data/fhv/x.parquet'' \<and> is_parquet_in_dir ''data/fhv/x.parquet'' \<and>
   fst (load_parquets_into_duckdb read_two fs_two db_empty) = Inr () \<and>
   tables (snd (load_parquets_into_duckdb read_two fs_two db_empty)) ''prod.fhv_tripdata'' =
     Some \<lparr>columns = [''a'', ''b'', ''c''],
           rows = [ [Some 1, Some 2, None], [Some 3, None, Some 4]]\<rparr> \<and>
   good_files fs_two = [''data/fhv/x.parquet'', ''data/fhv/y.parquet''] \<and>
   fst (load_parquets_into_duckdb read_two [(''data/fhv/t.parquet'', 10)] db_empty) =
     Inl ''No valid parquet files found to load. Conversion likely failed for all months.'' \<and>
   snd (load_parquets_into_duckdb read_two [(''data/fhv/t.parquet'', 10)] db_empty) = db_empty"
proof -
  have g: "good_files fs_two = [''data/fhv/x.parquet'', ''data/fhv/y.parquet'']"
    by (simp add: good_files_def glob_parquet_def fs_two_def is_parquet_in_dir_def data_dir_def
        valid_def suffix_to_prefix Let_def)
  have v: "valid fs_two ''data/fhv/x.parquet''" "is_parquet_in_dir ''data/fhv/x.parquet''"
    by (simp_all add: fs_two_def is_parquet_in_dir_def data_dir_def valid_def suffix_to_prefix
        Let_def)
  have u: "union_by_name (map read_two [''data/fhv/x.parquet'', ''data/fhv/y.parquet'']) =
     \<lparr>columns = [''a'', ''b'', ''c''], rows = [ [Some 1, Some 2, None], [Some 3, None, Some 4]]\<rparr>"
    by (simp add: union_by_name_def all_columns_def read_two_def pad_row_def)
  have ok: "fst (load_parquets_into_duckdb read_two fs_two db_empty) = Inr ()"
    by (simp add: load_parquets_into_duckdb_def g)
  have g0: "good_files [(''data/fhv/t.parquet'', 10)] = []"
    by (simp add: good_files_def glob_parquet_def is_parquet_in_dir_def data_dir_def
        valid_def suffix_to_prefix Let_def)
  have bad: "fst (load_parquets_into_duckdb read_two [(''data/fhv/t.parquet'', 10)] db_empty) =
     Inl ''No valid parquet files found to load. Conversion likely failed for all months.''"
    by (simp add: load_parquets_into_duckdb_def g0)
  have ex: "\<exists>e. fst (load_parquets_into_duckdb read_two [(''data/fhv/t.parquet'', 10)] db_empty)
      = Inl e"
    by (intro exI) (rule bad)
  note T = load_parquets_union_of_valid[of read_two fs_two db_empty "[]"]
  note B = load_parquets_union_of_valid[of read_two "[(''data/fhv/t.parquet'', 10)]" db_empty "[]"]
  have t: "tables (snd (load_parquets_into_duckdb read_two fs_two db_empty)) ''prod.fhv_tripdata''
      = Some (union_by_name (map read_two (good_files fs_two)))"
    by (rule T[THEN conjunct2, THEN conjunct2, THEN conjunct1, THEN mp, OF ok, THEN conjunct1])
  have s: "snd (load_parquets_into_duckdb read_two [(''data/fhv/t.parquet'', 10)] db_empty) = db_empty"
    by (rule B[THEN conjunct2, THEN conjunct1, THEN mp, OF ex])
  have t': "tables (snd (load_parquets_into_duckdb read_two fs_two db_empty)) ''prod.fhv_tripdata''
      = Some \<lparr>columns = [''a'', ''b'', ''c''],
           rows = [ [Some 1, Some 2, None], [Some 3, None, Some 4]]\<rparr>"
    by (simp only: t g u)
  show ?thesis
    by (intro conjI) (fact v ok t' g bad s)+
qed

end
